theory Spec2Isabelle
  imports Complex_Main "HOL-Library.Sublist"
begin

section \<open>Face-recognition attendance: the attendance ledger\<close>

text \<open>
  The repository holds two programs with the same shape: \<^verbatim>\<open>main.py\<close>
  (class \<^verbatim>\<open>FaceRecognitionAttendance\<close>, matching by face descriptors) and
  \<^verbatim>\<open>main2.py\<close> (class \<^verbatim>\<open>LightweightFaceAttendance\<close>, matching by a trained
  LBPH classifier). Their \<^verbatim>\<open>mark_attendance\<close> and \<^verbatim>\<open>success_indication\<close>
  methods are the same text, so they are embedded once, over the part of the
  state both classes share.

  Library calls are embedded by what they compute: \<^verbatim>\<open>strftime\<close>,
  \<^verbatim>\<open>csv.writer(...).writerow\<close> in the default (excel) dialect, text-mode reading
  with universal newlines, Python's substring test \<^verbatim>\<open>in\<close>. Failures of the
  operating system (a log file that cannot be opened) are outside the model.
\<close>

subsection \<open>The clock\<close>

record datetime =
  year :: nat
  month :: nat
  day :: nat
  hour :: nat
  minute :: nat
  second :: nat

definition digit_char :: "nat \<Rightarrow> char" where
  "digit_char n = ''0123456789'' ! (n mod 10)"

definition pad2 :: "nat \<Rightarrow> string" where
  "pad2 n = [digit_char (n div 10), digit_char n]"

definition pad4 :: "nat \<Rightarrow> string" where
  "pad4 n = [digit_char (n div 1000), digit_char (n div 100), digit_char (n div 10), digit_char n]"

text \<open>\<^verbatim>\<open>now.strftime("%Y-%m-%d")\<close> and \<^verbatim>\<open>now.strftime("%H:%M:%S")\<close>.\<close>

definition strftime_date :: "datetime \<Rightarrow> string" where
  "strftime_date now = pad4 (year now) @ ''-'' @ pad2 (month now) @ ''-'' @ pad2 (day now)"

definition strftime_time :: "datetime \<Rightarrow> string" where
  "strftime_time now = pad2 (hour now) @ '':'' @ pad2 (minute now) @ '':'' @ pad2 (second now)"

subsection \<open>Writing a CSV row\<close>

abbreviation DQUOTE :: char where "DQUOTE \<equiv> CHR 0x22"
abbreviation CR :: char where "CR \<equiv> CHR 0x0D"
abbreviation LF :: char where "LF \<equiv> CHR 0x0A"
abbreviation COMMA :: char where "COMMA \<equiv> CHR 0x2C"

text \<open>
  The excel dialect with \<^verbatim>\<open>QUOTE_MINIMAL\<close>: a field is quoted when it holds
  the delimiter, the quote character or a character of the line terminator;
  inside a quoted field every quote character is doubled. A row that is one
  empty field is written as two quote characters. The terminator is CR LF.
\<close>

definition csv_special :: "char \<Rightarrow> bool" where
  "csv_special c \<longleftrightarrow> c = COMMA \<or> c = DQUOTE \<or> c = CR \<or> c = LF"

definition csv_field :: "string \<Rightarrow> string" where
  "csv_field f =
     (if list_ex csv_special f
      then [DQUOTE] @ concat (map (\<lambda>c. if c = DQUOTE then [DQUOTE, DQUOTE] else [c]) f) @ [DQUOTE]
      else f)"

fun join_fields :: "string list \<Rightarrow> string" where
  "join_fields [] = []"
| "join_fields [f] = f"
| "join_fields (f # g # fs) = f @ [COMMA] @ join_fields (g # fs)"

definition writerow :: "string list \<Rightarrow> string" where
  "writerow row =
     (if row = [[]] then [DQUOTE, DQUOTE] else join_fields (map csv_field row)) @ [CR, LF]"

subsection \<open>Reading a text file line by line\<close>

text \<open>
  \<^verbatim>\<open>open(path, 'r')\<close> translates CR LF and a lone CR to LF; iterating the
  file yields the lines, each with its LF, the last one possibly without.
\<close>

fun universal_newlines :: "string \<Rightarrow> string" where
  "universal_newlines [] = []"
| "universal_newlines [c] = [if c = CR then LF else c]"
| "universal_newlines (c # d # cs) =
     (if c = CR \<and> d = LF then LF # universal_newlines cs
      else if c = CR then LF # universal_newlines (d # cs)
      else c # universal_newlines (d # cs))"

fun split_lines :: "string \<Rightarrow> string \<Rightarrow> string list" where
  "split_lines cur [] = (if cur = [] then [] else [cur])"
| "split_lines cur (c # cs) =
     (if c = LF then (cur @ [LF]) # split_lines [] cs else split_lines (cur @ [c]) cs)"

definition file_lines :: "string \<Rightarrow> string list" where
  "file_lines content = split_lines [] (universal_newlines content)"

subsection \<open>The state both programs share\<close>

text \<open>What the programs print, one constructor per message.\<close>

datatype msg =
    AttendanceMarked string string
  | AlreadyMarked string
  | LoadingDatabase
  | Loaded string
  | WarningNoFace string
  | DatabaseLoaded nat
  | TrainingModel
  | Processed string
  | ModelTrained nat nat
  | NoFacesFound
  | ModelLoaded nat
  | RecognitionError
  | FailedCapture
  | SuccessfullyAdded string
  | SuccessfullyCaptured string
  | NoFaceDetected
  | Cancelled

text \<open>
  \<open>attendance_log\<close> is the content of the file \<^verbatim>\<open>self.attendance_log\<close>
  (\<open>None\<close>: the file does not exist), \<open>gpio\<close> the outputs written so far as
  (pin, level) pairs, \<open>console\<close> the messages printed so far.
\<close>

record world =
  attendance_log :: "string option"
  gpio :: "(nat \<times> bool) list"
  console :: "msg list"

definition led_pin :: nat where "led_pin = 17"
definition buzzer_pin :: nat where "buzzer_pin = 18"

definition success_indication :: "'z world_scheme \<Rightarrow> 'z world_scheme" where
  "success_indication w =
     w\<lparr>gpio := gpio w @ [(led_pin, True), (buzzer_pin, True), (led_pin, False), (buzzer_pin, False)]\<rparr>"

text \<open>Opening a file in append mode creates it when it is missing.\<close>

definition append_file :: "string option \<Rightarrow> string \<Rightarrow> string option" where
  "append_file f txt = (case f of None \<Rightarrow> Some txt | Some content \<Rightarrow> Some (content @ txt))"

text \<open>The scan \<^verbatim>\<open>for line in file: if name in line and date_str in line\<close>.\<close>

definition already_marked :: "string \<Rightarrow> string \<Rightarrow> string option \<Rightarrow> bool" where
  "already_marked name date_str f =
     (case f of None \<Rightarrow> False
      | Some content \<Rightarrow> list_ex (\<lambda>line. sublist name line \<and> sublist date_str line) (file_lines content))"

definition mark_attendance :: "datetime \<Rightarrow> string \<Rightarrow> 'z world_scheme \<Rightarrow> bool \<times> 'z world_scheme" where
  "mark_attendance now name w =
     (let date_str = strftime_date now;
          time_str = strftime_time now
      in if \<not> already_marked name date_str (attendance_log w)
         then (True,
               success_indication
                 (w\<lparr>attendance_log := append_file (attendance_log w) (writerow [name, date_str, time_str]),
                    console := console w @ [AttendanceMarked name time_str]\<rparr>))
         else (False, w\<lparr>console := console w @ [AlreadyMarked name]\<rparr>))"

text \<open>
  The reading of the ledger the specification asks for: a data row is split at
  its commas, and a row records \<open>(name, date)\<close> when its first two fields are
  exactly these.
\<close>

fun split_commas :: "string \<Rightarrow> string \<Rightarrow> string list" where
  "split_commas cur [] = [cur]"
| "split_commas cur (c # cs) =
     (if c = COMMA then cur # split_commas [] cs else split_commas (cur @ [c]) cs)"

definition row_fields :: "string \<Rightarrow> string list" where
  "row_fields line = split_commas [] (filter (\<lambda>c. c \<noteq> LF) line)"

definition records_name_date :: "string \<Rightarrow> string \<Rightarrow> string \<Rightarrow> bool" where
  "records_name_date name date_str line =
     (case row_fields line of n # d # _ \<Rightarrow> n = name \<and> d = date_str | _ \<Rightarrow> False)"

definition spec_already_marked :: "string \<Rightarrow> string \<Rightarrow> string option \<Rightarrow> bool" where
  "spec_already_marked name date_str f =
     (case f of None \<Rightarrow> False
      | Some content \<Rightarrow> list_ex (records_name_date name date_str) (file_lines content))"

text \<open>
  Names the dedup scan finds again in the row written for them: the writer
  doubles a quote character, and the reader ends a line at CR or LF.
\<close>

definition plain_name :: "string \<Rightarrow> bool" where
  "plain_name name \<longleftrightarrow> \<not> list_ex (\<lambda>c. c = DQUOTE \<or> c = CR \<or> c = LF) name"

text \<open>The row written for a name, without its terminator.\<close>

definition row_body :: "string \<Rightarrow> datetime \<Rightarrow> datetime \<Rightarrow> string" where
  "row_body name now now' = csv_field name @ [COMMA] @ strftime_date now @ [COMMA] @ strftime_time now'"

text \<open>A log that is empty or ends with a line terminator, as every log the programs write.\<close>

definition newline_terminated :: "string \<Rightarrow> bool" where
  "newline_terminated content \<longleftrightarrow> content = [] \<or> last content = LF \<or> last content = CR"

text \<open>Some concrete states: two clock readings on one day, a name, and some logs.\<close>

definition quoted_name :: string where
  "quoted_name = [CHR ''O'', DQUOTE, CHR ''N'']"


definition clock1 :: datetime where
  "clock1 = \<lparr>year = 2024, month = 1, day = 1, hour = 10, minute = 5, second = 7\<rparr>"

definition clock2 :: datetime where
  "clock2 = \<lparr>year = 2024, month = 1, day = 1, hour = 17, minute = 30, second = 0\<rparr>"

definition header_row :: string where
  "header_row = writerow [''Name'', ''Date'', ''Time'']"

definition world_empty :: world where
  "world_empty = \<lparr>attendance_log = Some header_row, gpio = [], console = []\<rparr>"

definition world_bob :: world where
  "world_bob = \<lparr>attendance_log = Some (header_row @ writerow [''Bob'', ''2024-01-01'', ''09:00:00'']),
                  gpio = [], console = []\<rparr>"

definition world_unterminated :: world where
  "world_unterminated = \<lparr>attendance_log = Some (''Name,Date,Time'' @ [CR, LF] @ ''Bob,2024-01-01,09:00:00''),
                           gpio = [], console = []\<rparr>"

definition world_ali :: world where
  "world_ali = \<lparr>attendance_log = Some (header_row @ writerow [''Ali'', ''2024-01-01'', ''09:00:00'']),
                  gpio = [], console = []\<rparr>"

section \<open>The identity store and the two matchers\<close>

datatype error = IndexError | ValueError | CvError | FileNotFoundError

text \<open>
  Both programs keep one reference image per employee in the directory
  \<^verbatim>\<open>self.database_path\<close>. \<open>database\<close> is that directory in the order
  \<^verbatim>\<open>os.listdir\<close> presents it: file name and image. An image written and read
  back is taken to be the image itself.
\<close>

record 'img store = world +
  database :: "(string \<times> 'img) list"

text \<open>
  Assignment to a key of a Python dict: an existing key keeps its place and gets
  the new value, a new key goes to the end.
\<close>

fun dict_set :: "('k \<times> 'v) list \<Rightarrow> 'k \<Rightarrow> 'v \<Rightarrow> ('k \<times> 'v) list" where
  "dict_set [] k v = [(k, v)]"
| "dict_set ((k', v') # rest) k v =
     (if k' = k then (k, v) # rest else (k', v') # dict_set rest k v)"

definition dict_get :: "('k \<times> 'v) list \<Rightarrow> 'k \<Rightarrow> 'v \<Rightarrow> 'v" where
  "dict_get d k dflt = (case map_of d k of None \<Rightarrow> dflt | Some v \<Rightarrow> v)"

text \<open>
  \<^verbatim>\<open>cv2.imwrite(filename, frame)\<close> into the directory, which has no
  subdirectories. A file that exists is overwritten where it is. A new file
  shows up in the listing at a place that the file system chooses,
  \<open>place dir filename\<close>. A name with a path separator, or one longer than the
  255 bytes a file name may have, names no file of the directory: nothing is
  written (\<^verbatim>\<open>cv2.imwrite\<close> returns \<^verbatim>\<open>False\<close>, which both programs ignore).
\<close>

definition imwrite ::
  "((string \<times> 'img) list \<Rightarrow> string \<Rightarrow> nat) \<Rightarrow> string \<Rightarrow> 'img \<Rightarrow> (string \<times> 'img) list
     \<Rightarrow> (string \<times> 'img) list" where
  "imwrite place filename frame dir =
     (if map_of dir filename \<noteq> None then dict_set dir filename frame
      else if CHR ''/'' \<in> set filename \<or> length filename > 255 then dir
      else take (place dir filename) dir @ [(filename, frame)] @ drop (place dir filename) dir)"

definition os_remove :: "string \<Rightarrow> (string \<times> 'img) list \<Rightarrow> (string \<times> 'img) list" where
  "os_remove filename dir = filter (\<lambda>(f, _). f \<noteq> filename) dir"

definition is_image_file :: "string \<Rightarrow> bool" where
  "is_image_file filename \<longleftrightarrow> suffix ''.jpg'' filename \<or> suffix ''.png'' filename"

text \<open>
  \<^verbatim>\<open>os.path.splitext(filename)[0]\<close> for a name without directory separator:
  the part before the last dot, unless only dots come before it.
\<close>

definition splitext_root :: "string \<Rightarrow> string" where
  "splitext_root p =
     (let rest = dropWhile (\<lambda>c. c \<noteq> CHR ''.'') (rev p)
      in if rest = [] \<or> list_all (\<lambda>c. c = CHR ''.'') rest then p else rev (tl rest))"

text \<open>The key codes \<^verbatim>\<open>ord('c')\<close> and \<^verbatim>\<open>ord('q')\<close>.\<close>

definition ord_c :: nat where "ord_c = 99"
definition ord_q :: nat where "ord_q = 113"

text \<open>One pass of a \<^verbatim>\<open>while True\<close> loop either goes on or leaves the loop.\<close>

datatype 's step = Continue 's | Break 's

subsection \<open>main.py: matching by descriptors\<close>

record 'img fra = "'img store" +
  known_face_encodings :: "real list list"
  known_face_names :: "string list"

text \<open>
  \<^verbatim>\<open>face_recognition.face_distance\<close> is
  \<^verbatim>\<open>np.linalg.norm(face_encodings - face_to_compare, axis=1)\<close> (an empty array
  for an empty list), and \<^verbatim>\<open>compare_faces\<close> is
  \<^verbatim>\<open>list(face_distance(...) <= tolerance)\<close>. The norm is computed in
  floating point and is rounded, so it is not the exact Euclidean distance:
  \<open>norm_diff e q\<close> stands for the number that numpy computes for the known
  descriptor \<open>e\<close> and the query \<open>q\<close>, whatever that is. Floating-point
  numbers are finite here and are read as the reals they denote.
\<close>

definition face_distance ::
  "(real list \<Rightarrow> real list \<Rightarrow> real) \<Rightarrow> real list list \<Rightarrow> real list \<Rightarrow> real list" where
  "face_distance norm_diff face_encodings face_to_compare =
     map (\<lambda>e. norm_diff e face_to_compare) face_encodings"

definition compare_faces ::
  "(real list \<Rightarrow> real list \<Rightarrow> real) \<Rightarrow> real list list \<Rightarrow> real list \<Rightarrow> real \<Rightarrow> bool list" where
  "compare_faces norm_diff known face_encoding_to_check tol =
     map (\<lambda>d. d \<le> tol) (face_distance norm_diff known face_encoding_to_check)"

definition tolerance :: real where "tolerance = 6 / 10"

text \<open>\<^verbatim>\<open>np.argmin\<close>: the first index of the least element; an error on an empty array.\<close>

fun argmin_from :: "'a::linorder \<Rightarrow> nat \<Rightarrow> nat \<Rightarrow> 'a list \<Rightarrow> nat" where
  "argmin_from best bi i [] = bi"
| "argmin_from best bi i (x # xs) =
     (if x < best then argmin_from x i (Suc i) xs else argmin_from best bi (Suc i) xs)"

definition argmin :: "'a::linorder list \<Rightarrow> error + nat" where
  "argmin xs = (case xs of [] \<Rightarrow> Inl ValueError | x # rest \<Rightarrow> Inr (argmin_from x 0 1 rest))"

definition index :: "'a list \<Rightarrow> nat \<Rightarrow> error + 'a" where
  "index xs i = (if i < length xs then Inr (xs ! i) else Inl IndexError)"

text \<open>
  The body of the loop over the faces of one frame in \<^verbatim>\<open>run\<close> (lines 136 to
  146): the name shown for the face, and the state after it.
\<close>

definition match_face ::
  "(real list \<Rightarrow> real list \<Rightarrow> real) \<Rightarrow> datetime \<Rightarrow> real list \<Rightarrow> ('img, 'z) fra_scheme
     \<Rightarrow> error + (string \<times> ('img, 'z) fra_scheme)" where
  "match_face norm_diff now face_encoding s =
     (let matches = compare_faces norm_diff (known_face_encodings s) face_encoding tolerance;
          face_distances = face_distance norm_diff (known_face_encodings s) face_encoding
      in if length face_distances > 0 then
           (case argmin face_distances of
              Inl e \<Rightarrow> Inl e
            | Inr best_match_index \<Rightarrow>
                (case index matches best_match_index of
                   Inl e \<Rightarrow> Inl e
                 | Inr m \<Rightarrow>
                     if m then
                       (case index (known_face_names s) best_match_index of
                          Inl e \<Rightarrow> Inl e
                        | Inr name \<Rightarrow> Inr (name, snd (mark_attendance now name s)))
                     else Inr (''Unknown'', s)))
         else Inr (''Unknown'', s))"

text \<open>
  \<^verbatim>\<open>load_known_faces\<close>; \<open>face_encodings\<close> stands for
  \<^verbatim>\<open>face_recognition.face_encodings\<close>, the descriptors of the faces found in an
  image.
\<close>

fun load_scan ::
  "('img \<Rightarrow> real list list) \<Rightarrow> (string \<times> 'img) list \<Rightarrow> ('img, 'z) fra_scheme \<Rightarrow> ('img, 'z) fra_scheme" where
  "load_scan face_encodings [] s = s"
| "load_scan face_encodings ((filename, img) # rest) s =
     (if is_image_file filename then
        (let name = splitext_root filename;
             encs = face_encodings img
         in if length encs > 0 then
              load_scan face_encodings rest
                (s\<lparr>known_face_encodings := known_face_encodings s @ [encs ! 0],
                   known_face_names := known_face_names s @ [name],
                   console := console s @ [Loaded name]\<rparr>)
            else load_scan face_encodings rest (s\<lparr>console := console s @ [WarningNoFace filename]\<rparr>))
      else load_scan face_encodings rest s)"

definition load_known_faces ::
  "('img \<Rightarrow> real list list) \<Rightarrow> ('img, 'z) fra_scheme \<Rightarrow> ('img, 'z) fra_scheme" where
  "load_known_faces face_encodings s =
     (let s1 = load_scan face_encodings (database s) (s\<lparr>console := console s @ [LoadingDatabase]\<rparr>)
      in s1\<lparr>console := console s1 @ [DatabaseLoaded (length (known_face_names s1))]\<rparr>)"

text \<open>
  \<^verbatim>\<open>add_employee\<close>: one pass of its loop takes what the camera and the
  keyboard deliver, \<open>(ret, frame, key)\<close>. The image is read back from the file
  just written; \<^verbatim>\<open>load_image_file\<close> raises when there is no such file, and
  the error leaves \<^verbatim>\<open>add_employee\<close>. The loop runs until a pass leaves it; on
  a finite run of inputs that never does, it is still waiting (\<open>None\<close>).
\<close>

definition add_employee_pass ::
  "((string \<times> 'img) list \<Rightarrow> string \<Rightarrow> nat) \<Rightarrow> ('img \<Rightarrow> real list list) \<Rightarrow> string
     \<Rightarrow> bool \<times> 'img \<times> nat \<Rightarrow> ('img, 'z) fra_scheme \<Rightarrow> error + ('img, 'z) fra_scheme step" where
  "add_employee_pass place face_encodings name ev s =
     (case ev of (ret, frame, key) \<Rightarrow>
        if \<not> ret then Inr (Break (s\<lparr>console := console s @ [FailedCapture]\<rparr>))
        else if key = ord_c then
          (let filename = name @ ''.jpg'';
               s1 = s\<lparr>database := imwrite place filename frame (database s)\<rparr>
           in case map_of (database s1) filename of
                None \<Rightarrow> Inl FileNotFoundError
              | Some img \<Rightarrow>
                  (let encs = face_encodings img
                   in if length encs > 0 then
                        Inr (Break (s1\<lparr>known_face_encodings := known_face_encodings s1 @ [encs ! 0],
                                      known_face_names := known_face_names s1 @ [name],
                                      console := console s1 @ [SuccessfullyAdded name]\<rparr>))
                      else
                        Inr (Continue (s1\<lparr>console := console s1 @ [NoFaceDetected],
                                         database := os_remove filename (database s1)\<rparr>))))
        else if key = ord_q then Inr (Break (s\<lparr>console := console s @ [Cancelled]\<rparr>))
        else Inr (Continue s))"

fun add_employee ::
  "((string \<times> 'img) list \<Rightarrow> string \<Rightarrow> nat) \<Rightarrow> ('img \<Rightarrow> real list list) \<Rightarrow> string
     \<Rightarrow> (bool \<times> 'img \<times> nat) list \<Rightarrow> ('img, 'z) fra_scheme \<Rightarrow> error + ('img, 'z) fra_scheme option" where
  "add_employee place face_encodings name [] s = Inr None"
| "add_employee place face_encodings name (ev # evs) s =
     (case add_employee_pass place face_encodings name ev s of
        Inl e \<Rightarrow> Inl e
      | Inr (Break s') \<Rightarrow> Inr (Some s')
      | Inr (Continue s') \<Rightarrow> add_employee place face_encodings name evs s')"

subsection \<open>main2.py: matching by a trained classifier\<close>

text \<open>
  \<open>recognizer\<close> is what the LBPH recognizer holds: nothing before it was
  trained, else the samples of its last training (\<^verbatim>\<open>train\<close> replaces the
  model). \<open>employee_ids\<close> is the dict from label to name. The two files under
  \<^verbatim>\<open>models/\<close> are kept by their content: the rows of the table, the saved
  model.
\<close>

record ('img, 'face) lfa = "'img store" +
  employee_ids :: "(int \<times> string) list"
  recognizer :: "('face \<times> int) list option"
  employee_ids_file :: "(int \<times> string) list option"
  recognizer_file :: "('face \<times> int) list option"

type_synonym rect = "nat \<times> nat \<times> nat \<times> nat"

text \<open>
  The loop of \<^verbatim>\<open>train_model\<close> over the directory, on the local variables
  \<open>(faces, ids, next_id, id_map)\<close> and the printed messages. \<open>detect\<close> stands
  for \<^verbatim>\<open>face_cascade.detectMultiScale\<close> and \<open>crop\<close> for the slice
  \<^verbatim>\<open>img[y:y+h, x:x+w]\<close>.
\<close>

fun train_scan ::
  "('img \<Rightarrow> rect list) \<Rightarrow> ('img \<Rightarrow> rect \<Rightarrow> 'face) \<Rightarrow> (string \<times> 'img) list
     \<Rightarrow> 'face list \<times> int list \<times> int \<times> (int \<times> string) list \<times> msg list
     \<Rightarrow> 'face list \<times> int list \<times> int \<times> (int \<times> string) list \<times> msg list" where
  "train_scan detect crop [] acc = acc"
| "train_scan detect crop ((filename, img) # rest) (faces, ids, next_id, id_map, out) =
     (if is_image_file filename then
        (let name = splitext_root filename;
             emp_id = next_id;
             id_map' = dict_set id_map emp_id name
         in case detect img of
              [] \<Rightarrow> train_scan detect crop rest (faces, ids, next_id + 1, id_map', out)
            | r # _ \<Rightarrow>
                train_scan detect crop rest
                  (faces @ [crop img r], ids @ [emp_id], next_id + 1, id_map', out @ [Processed name]))
      else train_scan detect crop rest (faces, ids, next_id, id_map, out))"

definition train_model ::
  "('img \<Rightarrow> rect list) \<Rightarrow> ('img \<Rightarrow> rect \<Rightarrow> 'face) \<Rightarrow> ('img, 'face, 'z) lfa_scheme
     \<Rightarrow> ('img, 'face, 'z) lfa_scheme" where
  "train_model detect crop s =
     (case train_scan detect crop (database s) ([], [], 1, [], console s @ [TrainingModel]) of
        (faces, ids, next_id, id_map, out) \<Rightarrow>
          (let s1 = s\<lparr>employee_ids := id_map, employee_ids_file := Some id_map, console := out\<rparr>
           in if length faces > 0 then
                s1\<lparr>recognizer := Some (zip faces ids),
                   recognizer_file := Some (zip faces ids),
                   console := out @ [ModelTrained (length faces) (length id_map)]\<rparr>
              else s1\<lparr>console := out @ [NoFacesFound]\<rparr>))"

text \<open>
  \<^verbatim>\<open>recognizer.predict\<close>: OpenCV raises an error when the model holds no
  histogram, that is before any training; on a trained model \<open>predict\<close>
  stands for the label and the confidence it computes.
\<close>

definition lbph_predict ::
  "(('face \<times> int) list \<Rightarrow> 'face \<Rightarrow> int \<times> real) \<Rightarrow> ('face \<times> int) list option \<Rightarrow> 'face
     \<Rightarrow> error + (int \<times> real)" where
  "lbph_predict predict model face_img =
     (case model of None \<Rightarrow> Inl CvError | Some m \<Rightarrow> Inr (predict m face_img))"

text \<open>
  The \<^verbatim>\<open>try\<close> block of \<^verbatim>\<open>run\<close> for one detected face (lines 194 to 214):
  the name drawn on the frame, if any, and the state after it.
\<close>

definition recognize_face ::
  "(('face \<times> int) list \<Rightarrow> 'face \<Rightarrow> int \<times> real) \<Rightarrow> datetime \<Rightarrow> 'face \<Rightarrow> ('img, 'face, 'z) lfa_scheme
     \<Rightarrow> string option \<times> ('img, 'face, 'z) lfa_scheme" where
  "recognize_face predict now face_img s =
     (case lbph_predict predict (recognizer s) face_img of
        Inl e \<Rightarrow> (None, s\<lparr>console := console s @ [RecognitionError]\<rparr>)
      | Inr (id_num, confidence) \<Rightarrow>
          if confidence < 70 then
            (let name = dict_get (employee_ids s) id_num ''Unknown''
             in (Some name, snd (mark_attendance now name s)))
          else (Some ''Unknown'', s))"

text \<open>\<^verbatim>\<open>add_employee\<close> of main2.py; here every pass gets a frame.\<close>

definition add_employee2_pass ::
  "((string \<times> 'img) list \<Rightarrow> string \<Rightarrow> nat) \<Rightarrow> ('img \<Rightarrow> rect list) \<Rightarrow> ('img \<Rightarrow> rect \<Rightarrow> 'face)
     \<Rightarrow> string \<Rightarrow> 'img \<times> nat \<Rightarrow> ('img, 'face, 'z) lfa_scheme \<Rightarrow> ('img, 'face, 'z) lfa_scheme step" where
  "add_employee2_pass place detect crop name ev s =
     (case ev of (frame, key) \<Rightarrow>
        (let faces = detect frame
         in if key = ord_c then
              (if length faces > 0 then
                 (let filename = name @ ''.jpg'';
                      s1 = s\<lparr>database := imwrite place filename frame (database s),
                             console := console s @ [SuccessfullyCaptured name]\<rparr>
                  in Break (train_model detect crop s1))
               else Continue (s\<lparr>console := console s @ [NoFaceDetected]\<rparr>))
            else if key = ord_q then Break (s\<lparr>console := console s @ [Cancelled]\<rparr>)
            else Continue s))"

fun add_employee2 ::
  "((string \<times> 'img) list \<Rightarrow> string \<Rightarrow> nat) \<Rightarrow> ('img \<Rightarrow> rect list) \<Rightarrow> ('img \<Rightarrow> rect \<Rightarrow> 'face)
     \<Rightarrow> string \<Rightarrow> ('img \<times> nat) list \<Rightarrow> ('img, 'face, 'z) lfa_scheme
     \<Rightarrow> ('img, 'face, 'z) lfa_scheme option" where
  "add_employee2 place detect crop name [] s = None"
| "add_employee2 place detect crop name (ev # evs) s =
     (case add_employee2_pass place detect crop name ev s of
        Break s' \<Rightarrow> Some s'
      | Continue s' \<Rightarrow> add_employee2 place detect crop name evs s')"

section \<open>Notions used to state the properties\<close>

text \<open>The first index of a least element of a list.\<close>

definition first_min :: "'a::linorder list \<Rightarrow> nat \<Rightarrow> bool" where
  "first_min ds i \<longleftrightarrow>
     i < length ds \<and> list_all (\<lambda>j. ds ! i \<le> ds ! j) [0..<length ds] \<and> list_all (\<lambda>j. ds ! i < ds ! j) [0..<i]"

text \<open>
  What \<^verbatim>\<open>train_model\<close> is to compute, told from the directory: the image
  files in listing order, numbered from \<open>k\<close>; the table from label to
  name; and the training samples, the first detected face of each image that
  has one, under the label of its image.
\<close>

fun label_from :: "int \<Rightarrow> 'a list \<Rightarrow> (int \<times> 'a) list" where
  "label_from k [] = []"
| "label_from k (x # xs) = (k, x) # label_from (k + 1) xs"

definition image_files :: "(string \<times> 'img) list \<Rightarrow> (string \<times> 'img) list" where
  "image_files dir = filter (\<lambda>(f, _). is_image_file f) dir"

definition table_of :: "int \<Rightarrow> (string \<times> 'img) list \<Rightarrow> (int \<times> string) list" where
  "table_of k imgs = map (\<lambda>(l, (f, _)). (l, splitext_root f)) (label_from k imgs)"

definition first_face :: "('img \<Rightarrow> rect list) \<Rightarrow> ('img \<Rightarrow> rect \<Rightarrow> 'face) \<Rightarrow> 'img \<Rightarrow> 'face list" where
  "first_face detect crop img = (case detect img of [] \<Rightarrow> [] | r # _ \<Rightarrow> [crop img r])"

definition samples_of ::
  "('img \<Rightarrow> rect list) \<Rightarrow> ('img \<Rightarrow> rect \<Rightarrow> 'face) \<Rightarrow> int \<Rightarrow> (string \<times> 'img) list \<Rightarrow> ('face \<times> int) list" where
  "samples_of detect crop k imgs =
     concat (map (\<lambda>(l, (f, img)). map (\<lambda>face. (face, l)) (first_face detect crop img)) (label_from k imgs))"

definition processed_of :: "('img \<Rightarrow> rect list) \<Rightarrow> (string \<times> 'img) list \<Rightarrow> msg list" where
  "processed_of detect imgs =
     concat (map (\<lambda>(f, img). if detect img = [] then [] else [Processed (splitext_root f)]) imgs)"

text \<open>The loop of \<^verbatim>\<open>run\<close> (main2.py) over the faces found in one frame.\<close>

fun recognize_faces ::
  "(('face \<times> int) list \<Rightarrow> 'face \<Rightarrow> int \<times> real) \<Rightarrow> datetime \<Rightarrow> 'face list \<Rightarrow> ('img, 'face, 'z) lfa_scheme
     \<Rightarrow> ('img, 'face, 'z) lfa_scheme" where
  "recognize_faces predict now [] s = s"
| "recognize_faces predict now (face_img # rest) s =
     recognize_faces predict now rest (snd (recognize_face predict now face_img s))"

text \<open>
  Concrete inputs. Images are numbers: image \<open>0\<close> shows no face, image \<open>n\<close>
  shows faces that the libraries describe as below.
\<close>

definition place_end :: "(string \<times> nat) list \<Rightarrow> string \<Rightarrow> nat" where
  "place_end dir filename = length dir"

text \<open>
  For descriptors of one component the norm of the difference is the absolute
  difference; against the query \<open>[0]\<close> no rounding takes place.
\<close>

definition abs_diff1 :: "real list \<Rightarrow> real list \<Rightarrow> real" where
  "abs_diff1 e q = (case (e, q) of ([x], [y]) \<Rightarrow> \<bar>x - y\<bar> | _ \<Rightarrow> 0)"

definition faces_of :: "nat \<Rightarrow> real list list" where
  "faces_of img = (if img = 0 then [] else [[real img / 10]])"

definition detect_of :: "nat \<Rightarrow> rect list" where
  "detect_of img = (if img = 0 then [] else [(0, 0, img, img), (1, 1, 1, 1)])"

definition crop_of :: "nat \<Rightarrow> rect \<Rightarrow> nat \<times> rect" where
  "crop_of img r = (img, r)"

definition predict_first :: "((nat \<times> rect) \<times> int) list \<Rightarrow> nat \<times> rect \<Rightarrow> int \<times> real" where
  "predict_first m face_img = (case m of [] \<Rightarrow> (- 1, 100) | (_, l) # _ \<Rightarrow> (l, 50))"

definition store_none :: "nat fra" where
  "store_none = \<lparr>attendance_log = Some header_row, gpio = [], console = [], database = [],
                  known_face_encodings = [], known_face_names = []\<rparr>"

definition store_edge :: "nat fra" where
  "store_edge = \<lparr>attendance_log = Some header_row, gpio = [], console = [], database = [],
                  known_face_encodings = [[6 / 10]], known_face_names = [''A'']\<rparr>"

definition store_three :: "nat fra" where
  "store_three = \<lparr>attendance_log = Some header_row, gpio = [], console = [], database = [],
                   known_face_encodings = [[3 / 10], [5 / 10], [1 / 10]],
                   known_face_names = [''A'', ''B'', ''C'']\<rparr>"

definition fra_alice :: "nat fra" where
  "fra_alice = \<lparr>attendance_log = Some header_row, gpio = [], console = [],
                 database = [(''alice.jpg'', 1)],
                 known_face_encodings = [[1 / 10]], known_face_names = [''alice'']\<rparr>"

definition lfa_two :: "(nat, nat \<times> rect) lfa" where
  "lfa_two = \<lparr>attendance_log = Some header_row, gpio = [], console = [],
               database = [(''alice.jpg'', 1), (''notes.txt'', 5), (''bob.png'', 0)],
               employee_ids = [], recognizer = None, employee_ids_file = None, recognizer_file = None\<rparr>"

definition lfa_alice :: "(nat, nat \<times> rect) lfa" where
  "lfa_alice = \<lparr>attendance_log = Some header_row, gpio = [], console = [],
                 database = [(''alice.jpg'', 1)],
                 employee_ids = [(1, ''alice'')], recognizer = Some [((1, (0, 0, 1, 1)), 1)],
                 employee_ids_file = Some [(1, ''alice'')],
                 recognizer_file = Some [((1, (0, 0, 1, 1)), 1)]\<rparr>"

definition lfa_stale :: "(nat, nat \<times> rect) lfa" where
  "lfa_stale = \<lparr>attendance_log = Some header_row, gpio = [], console = [],
                 database = [],
                 employee_ids = [], recognizer = Some [((1, (0, 0, 1, 1)), 1)],
                 employee_ids_file = None, recognizer_file = None\<rparr>"

section \<open>Properties of the ledger\<close>

subsection \<open>Dates and times are written unquoted\<close>

lemma digit_char_in: "digit_char n \<in> set ''0123456789''"
  unfolding digit_char_def by (rule nth_mem) simp

lemma digit_char_not_special: "\<not> csv_special (digit_char n)"
  using digit_char_in [of n] by (auto simp: csv_special_def)

lemma date_not_special: "c \<in> set (strftime_date now) \<Longrightarrow> \<not> csv_special c"
  using digit_char_not_special
  by (auto simp: strftime_date_def pad2_def pad4_def csv_special_def)

lemma time_not_special: "c \<in> set (strftime_time now) \<Longrightarrow> \<not> csv_special c"
  using digit_char_not_special
  by (auto simp: strftime_time_def pad2_def csv_special_def)

lemma csv_field_plain: "\<forall>c\<in>set f. \<not> csv_special c \<Longrightarrow> csv_field f = f"
  by (simp add: csv_field_def list_ex_iff)

lemma csv_field_date: "csv_field (strftime_date now) = strftime_date now"
  by (rule csv_field_plain) (simp add: date_not_special)

lemma csv_field_time: "csv_field (strftime_time now) = strftime_time now"
  by (rule csv_field_plain) (simp add: time_not_special)

lemma writerow_three:
  "writerow [name, strftime_date now, strftime_time now'] =
     (csv_field name @ [COMMA] @ strftime_date now @ [COMMA] @ strftime_time now') @ [CR, LF]"
  by (simp add: writerow_def csv_field_date csv_field_time)

subsection \<open>The row of a plain name holds the name and the date\<close>

lemma concat_no_quote:
  "DQUOTE \<notin> set f \<Longrightarrow> concat (map (\<lambda>c. if c = DQUOTE then [DQUOTE, DQUOTE] else [c]) f) = f"
  by (induction f) auto

lemma csv_field_cases:
  assumes "DQUOTE \<notin> set f"
  shows "csv_field f = f \<or> csv_field f = [DQUOTE] @ f @ [DQUOTE]"
  using assms by (simp add: csv_field_def concat_no_quote)

lemma csv_field_sublist: "DQUOTE \<notin> set f \<Longrightarrow> sublist f (csv_field f)"
  using csv_field_cases [of f] sublist_appendI [of f "[DQUOTE]" "[DQUOTE]"] by auto

lemma csv_field_no_newline:
  assumes "plain_name f"
  shows "CR \<notin> set (csv_field f) \<and> LF \<notin> set (csv_field f)"
proof -
  from assms have "DQUOTE \<notin> set f" "CR \<notin> set f" "LF \<notin> set f"
    by (auto simp: plain_name_def list_ex_iff)
  with csv_field_cases [of f] show ?thesis by auto
qed

lemma row_body_no_newline:
  assumes "plain_name name"
  shows "CR \<notin> set (row_body name now now')" "LF \<notin> set (row_body name now now')"
  using csv_field_no_newline [OF assms] date_not_special [of _ now] time_not_special [of _ now']
  by (auto simp: row_body_def csv_special_def)

lemma row_body_sublists:
  assumes "plain_name name"
  shows "sublist name (row_body name now now')" "sublist (strftime_date now) (row_body name now now')"
proof -
  from assms have "DQUOTE \<notin> set name" by (auto simp: plain_name_def list_ex_iff)
  then have "sublist name (csv_field name)" by (rule csv_field_sublist)
  moreover have "sublist (csv_field name) (row_body name now now')"
    unfolding row_body_def by (rule sublist_append_rightI)
  ultimately show "sublist name (row_body name now now')"
    by (rule sublist_order.order_trans)
  have "row_body name now now' = (csv_field name @ [COMMA]) @ strftime_date now @ ([COMMA] @ strftime_time now')"
    by (simp add: row_body_def)
  then show "sublist (strftime_date now) (row_body name now now')"
    using sublist_appendI by metis
qed

subsection \<open>Reading back what was appended\<close>

lemma universal_newlines_append:
  "ys \<noteq> [] \<Longrightarrow> hd ys \<noteq> LF \<Longrightarrow>
   universal_newlines (xs @ ys) = universal_newlines xs @ universal_newlines ys"
proof (induction xs rule: universal_newlines.induct)
  case 1
  then show ?case by simp
next
  case (2 c)
  then show ?case by (cases ys) auto
next
  case (3 c d cs)
  then show ?case by simp
qed

lemma universal_newlines_plain: "CR \<notin> set xs \<Longrightarrow> universal_newlines xs = xs"
  by (induction xs rule: universal_newlines.induct) auto

lemma universal_newlines_Nil: "universal_newlines xs = [] \<longleftrightarrow> xs = []"
  by (induction xs rule: universal_newlines.induct) auto

lemma universal_newlines_last:
  "xs \<noteq> [] \<Longrightarrow> last xs = LF \<or> last xs = CR \<Longrightarrow> last (universal_newlines xs) = LF"
proof (induction xs rule: universal_newlines.induct)
  case 1
  then show ?case by simp
next
  case (2 c)
  then show ?case by auto
next
  case (3 c d cs)
  show ?case
  proof (cases "cs = []")
    case True
    with "3.prems" show ?thesis by auto
  next
    case False
    with "3.prems" have "last cs = LF \<or> last cs = CR" by simp
    with "3.IH" False "3.prems" show ?thesis
      by (auto simp: universal_newlines_Nil)
  qed
qed

lemma split_lines_one: "LF \<notin> set body \<Longrightarrow> split_lines cur (body @ [LF]) = [cur @ body @ [LF]]"
  by (induction body arbitrary: cur) auto

lemma split_lines_append:
  "split_lines cur (xs @ LF # ys) = split_lines cur (xs @ [LF]) @ split_lines [] ys"
  by (induction xs arbitrary: cur) auto

lemma split_lines_terminated:
  assumes "xs = [] \<or> last xs = LF"
  shows "split_lines [] (xs @ ys) = split_lines [] xs @ split_lines [] ys"
proof (cases "xs = []")
  case True
  then show ?thesis by simp
next
  case False
  with assms have "xs = butlast xs @ [LF]"
    by (metis append_butlast_last_id)
  then obtain zs where xs: "xs = zs @ [LF]" ..
  have "split_lines [] (zs @ LF # ys) = split_lines [] (zs @ [LF]) @ split_lines [] ys"
    by (rule split_lines_append)
  then show ?thesis by (simp add: xs)
qed

lemma split_lines_last:
  "LF \<notin> set body \<Longrightarrow>
   \<exists>pre. last (split_lines cur (xs @ body @ [LF])) = pre @ body @ [LF] \<and>
         split_lines cur (xs @ body @ [LF]) \<noteq> []"
proof (induction xs arbitrary: cur)
  case Nil
  then show ?case by (simp add: split_lines_one)
next
  case (Cons x xs)
  show ?case
  proof (cases "x = LF")
    case True
    with Cons.IH [OF Cons.prems, of "[]"] show ?thesis by auto
  next
    case False
    with Cons.IH [OF Cons.prems, of "cur @ [x]"] show ?thesis by auto
  qed
qed

lemma universal_newlines_row:
  assumes "CR \<notin> set body" "LF \<notin> set body" "body \<noteq> []"
  shows "universal_newlines (content @ body @ [CR, LF]) = universal_newlines content @ body @ [LF]"
proof -
  have "hd (body @ [CR, LF]) \<noteq> LF"
    using assms by (cases body) auto
  then have "universal_newlines (content @ body @ [CR, LF]) =
      universal_newlines content @ universal_newlines (body @ [CR, LF])"
    by (intro universal_newlines_append) auto
  also have "universal_newlines (body @ [CR, LF]) = universal_newlines body @ universal_newlines [CR, LF]"
    by (intro universal_newlines_append) auto
  also have "\<dots> = body @ [LF]"
    using assms by (simp add: universal_newlines_plain)
  finally show ?thesis .
qed

lemma file_lines_row:
  assumes "CR \<notin> set body" "LF \<notin> set body" "body \<noteq> []"
  shows "\<exists>line\<in>set (file_lines (content @ body @ [CR, LF])). sublist body line"
proof -
  have eq: "file_lines (content @ body @ [CR, LF]) = split_lines [] (universal_newlines content @ body @ [LF])"
    by (simp add: file_lines_def universal_newlines_row [OF assms])
  obtain pre where "last (split_lines [] (universal_newlines content @ body @ [LF])) = pre @ body @ [LF]"
    and "split_lines [] (universal_newlines content @ body @ [LF]) \<noteq> []"
    using split_lines_last [OF assms(2)] by blast
  then have "pre @ body @ [LF] \<in> set (file_lines (content @ body @ [CR, LF]))"
    using eq last_in_set by metis
  then show ?thesis by (intro bexI [of _ "pre @ body @ [LF]"]) auto
qed

lemma file_lines_terminated_row:
  assumes "CR \<notin> set body" "LF \<notin> set body" "body \<noteq> []" "newline_terminated content"
  shows "file_lines (content @ body @ [CR, LF]) = file_lines content @ [body @ [LF]]"
proof -
  have "universal_newlines content = [] \<or> last (universal_newlines content) = LF"
  proof (cases "content = []")
    case True
    then show ?thesis by simp
  next
    case False
    with assms(4) universal_newlines_last [of content] show ?thesis
      by (auto simp: newline_terminated_def)
  qed
  then have "split_lines [] (universal_newlines content @ body @ [LF]) =
      split_lines [] (universal_newlines content) @ split_lines [] (body @ [LF])"
    by (rule split_lines_terminated)
  then show ?thesis
    by (simp add: file_lines_def universal_newlines_row [OF assms(1-3)] split_lines_one [OF assms(2)])
qed

lemma already_marked_after_row:
  assumes "plain_name name"
  shows "already_marked name (strftime_date now)
           (append_file f (writerow [name, strftime_date now, strftime_time now']))"
proof -
  let ?body = "row_body name now now'"
  have row: "writerow [name, strftime_date now, strftime_time now'] = ?body @ [CR, LF]"
    by (simp add: writerow_three row_body_def)
  have ne: "?body \<noteq> []" by (simp add: row_body_def)
  have found: "\<exists>line\<in>set (file_lines (content @ ?body @ [CR, LF])).
      sublist name line \<and> sublist (strftime_date now) line" for content
  proof -
    obtain line where "line \<in> set (file_lines (content @ ?body @ [CR, LF]))" "sublist ?body line"
      using file_lines_row [OF row_body_no_newline [OF assms] ne] by blast
    moreover from this row_body_sublists [OF assms, of now now']
    have "sublist name line" "sublist (strftime_date now) line"
      using sublist_order.order_trans by blast+
    ultimately show ?thesis by blast
  qed
  show ?thesis
  proof (cases f)
    case None
    with found [of "[]"] show ?thesis
      by (simp add: already_marked_def append_file_def row list_ex_iff)
  next
    case (Some content)
    with found [of content] show ?thesis
      by (simp add: already_marked_def append_file_def row list_ex_iff)
  qed
qed

subsection \<open>The two outcomes of mark_attendance\<close>

lemma mark_attendance_marked:
  "\<not> already_marked name (strftime_date now) (attendance_log w) \<Longrightarrow>
   mark_attendance now name w =
     (True, success_indication
        (w\<lparr>attendance_log := append_file (attendance_log w)
                                (writerow [name, strftime_date now, strftime_time now]),
           console := console w @ [AttendanceMarked name (strftime_time now)]\<rparr>))"
  by (simp add: mark_attendance_def Let_def)

lemma mark_attendance_already:
  "already_marked name (strftime_date now) (attendance_log w) \<Longrightarrow>
   mark_attendance now name w = (False, w\<lparr>console := console w @ [AlreadyMarked name]\<rparr>)"
  by (simp add: mark_attendance_def Let_def)

lemma already_marked_after_mark:
  assumes "plain_name name"
  shows "already_marked name (strftime_date now) (attendance_log (snd (mark_attendance now name w)))"
proof (cases "already_marked name (strftime_date now) (attendance_log w)")
  case True
  then show ?thesis by (simp add: mark_attendance_already)
next
  case False
  then show ?thesis
    using already_marked_after_row [OF assms, of now "attendance_log w" now]
    by (simp add: mark_attendance_marked success_indication_def)
qed

subsection \<open>Marking twice on one day\<close>

text \<open>
  Claim C1 asks that two calls of \<open>mark_attendance\<close> for one name on one
  date leave exactly one record of that name and date, the second call returning
  \<open>False\<close> without feedback signal. For the name \<^verbatim>\<open>O"N\<close> the writer doubles
  the quote character, and the scan does not find the name in the row it wrote:
  the second call on the same day returns \<open>True\<close> again, appends a second row
  and pulses the LED and the buzzer a second time.
\<close>

theorem mark_attendance_quoted_name_twice:
  "strftime_date clock1 = strftime_date clock2 \<and>
   fst (mark_attendance clock1 quoted_name world_empty) = True \<and>
   fst (mark_attendance clock2 quoted_name (snd (mark_attendance clock1 quoted_name world_empty))) = True \<and>
   attendance_log (snd (mark_attendance clock2 quoted_name (snd (mark_attendance clock1 quoted_name world_empty))))
     = Some (''Name,Date,Time'' @ [CR, LF] @
             [DQUOTE, CHR ''O'', DQUOTE, DQUOTE, CHR ''N'', DQUOTE] @ '',2024-01-01,10:05:07'' @ [CR, LF] @
             [DQUOTE, CHR ''O'', DQUOTE, DQUOTE, CHR ''N'', DQUOTE] @ '',2024-01-01,17:30:00'' @ [CR, LF]) \<and>
   gpio (snd (mark_attendance clock2 quoted_name (snd (mark_attendance clock1 quoted_name world_empty))))
     = [(17, True), (18, True), (17, False), (18, False), (17, True), (18, True), (17, False), (18, False)]"
  by code_simp

text \<open>
  Where the second call does find the first: a name without quote character, CR
  or LF is found again on the same date, whatever the log held before.
\<close>

lemma mark_attendance_second_call:
  assumes "plain_name name" and "strftime_date now2 = strftime_date now1"
  shows "mark_attendance now2 name (snd (mark_attendance now1 name w)) =
           (False, (snd (mark_attendance now1 name w))
                     \<lparr>console := console (snd (mark_attendance now1 name w)) @ [AlreadyMarked name]\<rparr>)"
proof -
  have "already_marked name (strftime_date now2) (attendance_log (snd (mark_attendance now1 name w)))"
    using already_marked_after_mark [OF assms(1), of now1 w] assms(2) by simp
  then show ?thesis by (rule mark_attendance_already)
qed

subsection \<open>The dedup scan is a substring scan\<close>

text \<open>
  Claim C2 asks that \<open>mark_attendance\<close> reports AlreadyMarkedToday only for a
  record whose Name field is exactly the name. On a log that holds
  \<^verbatim>\<open>Ali,2024-01-01,09:00:00\<close> the call for \<^verbatim>\<open>Al\<close> on that day returns
  \<open>False\<close> and appends nothing, although no row of the log has the Name field
  \<^verbatim>\<open>Al\<close>.
\<close>

theorem mark_attendance_substring_collision:
  "mark_attendance clock1 ''Al'' world_ali = (False, world_ali\<lparr>console := [AlreadyMarked ''Al'']\<rparr>) \<and>
   \<not> spec_already_marked ''Al'' (strftime_date clock1) (attendance_log world_ali) \<and>
   spec_already_marked ''Ali'' (strftime_date clock1) (attendance_log world_ali)"
  by code_simp

subsection \<open>The log only grows at its end\<close>

lemma split_commas_upto:
  "COMMA \<notin> set xs \<Longrightarrow> split_commas cur (xs @ COMMA # rest) = (cur @ xs) # split_commas [] rest"
  by (induction xs arbitrary: cur) auto

lemma records_name_date_row:
  assumes "COMMA \<notin> set name" and "LF \<notin> set name"
  shows "records_name_date name (strftime_date now)
           (name @ [COMMA] @ strftime_date now @ [COMMA] @ strftime_time now' @ [LF])"
proof -
  have d: "COMMA \<notin> set (strftime_date now)" "LF \<notin> set (strftime_date now)"
    using date_not_special [of _ now] by (auto simp: csv_special_def)
  have t: "LF \<notin> set (strftime_time now')"
    using time_not_special [of _ now'] by (auto simp: csv_special_def)
  have keep: "filter (\<lambda>c. c \<noteq> LF) xs = xs" if "LF \<notin> set xs" for xs :: string
    using that by (induction xs) auto
  have "row_fields (name @ [COMMA] @ strftime_date now @ [COMMA] @ strftime_time now' @ [LF]) =
      split_commas [] (name @ COMMA # (strftime_date now @ COMMA # strftime_time now'))"
    using assms(2) d(2) t by (simp add: row_fields_def keep)
  also have "\<dots> = name # split_commas [] (strftime_date now @ COMMA # strftime_time now')"
    using split_commas_upto [OF assms(1), of "[]"] by simp
  also have "\<dots> = name # strftime_date now # split_commas [] (strftime_time now')"
    using split_commas_upto [OF d(1), of "[]"] by simp
  finally show ?thesis by (simp add: records_name_date_def)
qed

text \<open>
  Claim C8, as the code has it. Let the log be empty or end with a line
  terminator, as every log the programs write does, and let the name hold no CR
  or LF. After \<open>mark_attendance\<close> with result \<open>False\<close> the log is byte for
  byte what it was. With result \<open>True\<close> the log is what it was followed by the
  row of the name, the date and the time; read line by line, all lines that were
  there are still there, unchanged and in order, and exactly one line came at
  the end. For a name without comma or quote character that line reads
  \<^verbatim>\<open>name,date,time\<close>, and its first two fields are the name and the date.
\<close>

theorem mark_attendance_append_only:
  assumes "mark_attendance now name w = (r, w')"
    and "attendance_log w = Some content" and "newline_terminated content"
    and "CR \<notin> set name" and "LF \<notin> set name"
  shows "(\<not> r \<longrightarrow> attendance_log w' = Some content) \<and>
         (r \<longrightarrow> attendance_log w' =
                  Some (content @ csv_field name @ [COMMA] @ strftime_date now @ [COMMA] @
                        strftime_time now @ [CR, LF]) \<and>
                file_lines (the (attendance_log w')) =
                  file_lines content @
                    [csv_field name @ [COMMA] @ strftime_date now @ [COMMA] @ strftime_time now @ [LF]]) \<and>
         (COMMA \<notin> set name \<and> DQUOTE \<notin> set name \<longrightarrow>
            csv_field name = name \<and>
            records_name_date name (strftime_date now)
              (name @ [COMMA] @ strftime_date now @ [COMMA] @ strftime_time now @ [LF]))"
proof -
  have plain: "csv_field name = name \<and>
      records_name_date name (strftime_date now)
        (name @ [COMMA] @ strftime_date now @ [COMMA] @ strftime_time now @ [LF])"
    if "COMMA \<notin> set name" "DQUOTE \<notin> set name"
  proof -
    have "csv_field name = name"
      using that assms(4,5) by (intro csv_field_plain) (auto simp: csv_special_def)
    with records_name_date_row [OF that(1) assms(5), of now now] show ?thesis by simp
  qed
  show ?thesis
  proof (cases "already_marked name (strftime_date now) (attendance_log w)")
    case True
    with assms(1) have "r = False" "w' = w\<lparr>console := console w @ [AlreadyMarked name]\<rparr>"
      by (simp_all add: mark_attendance_already)
    with assms(2) plain show ?thesis by simp
  next
    case False
    let ?row = "writerow [name, strftime_date now, strftime_time now]"
    from mark_attendance_marked [OF False] assms(1)
    have "(r, w') = (True, success_indication
        (w\<lparr>attendance_log := append_file (attendance_log w) ?row,
           console := console w @ [AttendanceMarked name (strftime_time now)]\<rparr>))"
      by simp
    then have r: "r = True" and "w' = success_indication
        (w\<lparr>attendance_log := append_file (attendance_log w) ?row,
           console := console w @ [AttendanceMarked name (strftime_time now)]\<rparr>)"
      by simp_all
    then have w': "attendance_log w' = Some (content @ row_body name now now @ [CR, LF])"
      using assms(2) by (simp add: success_indication_def append_file_def writerow_three row_body_def)
    have "CR \<notin> set (csv_field name) \<and> LF \<notin> set (csv_field name)"
      using assms(4,5) by (auto simp: csv_field_def split: if_splits)
    then have "CR \<notin> set (row_body name now now)" "LF \<notin> set (row_body name now now)"
      using date_not_special [of _ now] time_not_special [of _ now]
      by (auto simp: row_body_def csv_special_def)
    moreover have "row_body name now now \<noteq> []" by (simp add: row_body_def)
    ultimately have "file_lines (content @ row_body name now now @ [CR, LF]) =
        file_lines content @ [row_body name now now @ [LF]]"
      using assms(3) by (intro file_lines_terminated_row)
    with r w' plain show ?thesis by (simp add: row_body_def)
  qed
qed

theorem mark_attendance_append_only_witness:
  "attendance_log world_bob = Some (header_row @ writerow [''Bob'', ''2024-01-01'', ''09:00:00'']) \<and>
   newline_terminated (header_row @ writerow [''Bob'', ''2024-01-01'', ''09:00:00'']) \<and>
   CR \<notin> set ''Al'' \<and> LF \<notin> set ''Al'' \<and> COMMA \<notin> set ''Al'' \<and> DQUOTE \<notin> set ''Al'' \<and>
   fst (mark_attendance clock1 ''Al'' world_bob) \<and>
   file_lines (the (attendance_log (snd (mark_attendance clock1 ''Al'' world_bob)))) =
     file_lines (header_row @ writerow [''Bob'', ''2024-01-01'', ''09:00:00'']) @
       [csv_field ''Al'' @ [COMMA] @ strftime_date clock1 @ [COMMA] @ strftime_time clock1 @ [LF]] \<and>
   csv_field ''Al'' @ [COMMA] @ strftime_date clock1 @ [COMMA] @ strftime_time clock1 @ [LF]
     = ''Al,2024-01-01,10:05:07'' @ [LF] \<and>
   file_lines (header_row @ writerow [''Bob'', ''2024-01-01'', ''09:00:00''])
     = [''Name,Date,Time'' @ [LF], ''Bob,2024-01-01,09:00:00'' @ [LF]]"
proof -
  let ?p = "mark_attendance clock1 ''Al'' world_bob"
  let ?old = "header_row @ writerow [''Bob'', ''2024-01-01'', ''09:00:00'']"
  have h1: "fst ?p" by code_simp
  have h2: "attendance_log world_bob = Some ?old" by (simp add: world_bob_def)
  have h3: "newline_terminated ?old" by code_simp
  have h4: "CR \<notin> set ''Al''" by simp
  have h5: "LF \<notin> set ''Al''" by simp
  have h6: "COMMA \<notin> set ''Al'' \<and> DQUOTE \<notin> set ''Al''" by simp
  have h7: "csv_field ''Al'' @ [COMMA] @ strftime_date clock1 @ [COMMA] @ strftime_time clock1 @ [LF]
     = ''Al,2024-01-01,10:05:07'' @ [LF]" by code_simp
  have h8: "file_lines ?old = [''Name,Date,Time'' @ [LF], ''Bob,2024-01-01,09:00:00'' @ [LF]]"
    by code_simp
  note T = mark_attendance_append_only [OF surjective_pairing h2 h3 h4 h5, of clock1]
  have "file_lines (the (attendance_log (snd ?p))) =
     file_lines ?old @ [csv_field ''Al'' @ [COMMA] @ strftime_date clock1 @ [COMMA] @ strftime_time clock1 @ [LF]]"
    using T [THEN conjunct2, THEN conjunct1] h1 by blast
  with h1 h2 h3 h4 h5 h6 h7 h8 show ?thesis by blast
qed

text \<open>
  C8 as stated, for every prior content, fails on a log whose last line has no
  terminator: the new row is glued onto that line, so the record of Bob is no
  longer there as it was, and the log has as many lines as before.
\<close>

theorem mark_attendance_append_only_counterexample:
  "fst (mark_attendance clock1 ''Al'' world_unterminated) = True \<and>
   file_lines (the (attendance_log world_unterminated)) =
     [''Name,Date,Time'' @ [LF], ''Bob,2024-01-01,09:00:00''] \<and>
   file_lines (the (attendance_log (snd (mark_attendance clock1 ''Al'' world_unterminated)))) =
     [''Name,Date,Time'' @ [LF], ''Bob,2024-01-01,09:00:00Al,2024-01-01,10:05:07'' @ [LF]]"
  by code_simp

section \<open>Properties of the descriptor matcher (main.py)\<close>

lemma first_min_iff:
  "first_min ds i \<longleftrightarrow> i < length ds \<and> (\<forall>j<length ds. ds ! i \<le> ds ! j) \<and> (\<forall>j<i. ds ! i < ds ! j)"
  by (auto simp: first_min_def list_all_iff)

lemma first_min_unique: "first_min ds i \<Longrightarrow> first_min ds j \<Longrightarrow> i = j"
  unfolding first_min_iff by (metis linorder_neqE_nat not_le)

lemma argmin_from_first_min:
  assumes "first_min pre bi" "best = pre ! bi" "i = length pre"
  shows "first_min (pre @ xs) (argmin_from best bi i xs)"
  using assms
proof (induction xs arbitrary: pre best bi i)
  case Nil
  then show ?case by simp
next
  case (Cons x xs)
  show ?case
  proof (cases "x < best")
    case True
    have "first_min (pre @ [x]) i"
      unfolding first_min_iff using Cons.prems True
      by (auto simp: first_min_iff nth_append less_Suc_eq dest: order.strict_trans2 intro: less_imp_le)
    from Cons.IH [OF this, of x "Suc i"] Cons.prems True show ?thesis by simp
  next
    case False
    have "first_min (pre @ [x]) bi"
      unfolding first_min_iff using Cons.prems False
      by (auto simp: first_min_iff nth_append less_Suc_eq)
    from Cons.IH [OF this, of best "Suc i"] Cons.prems False show ?thesis
      by (simp add: nth_append first_min_iff)
  qed
qed

lemma argmin_first_min:
  assumes "ds \<noteq> []"
  shows "\<exists>i. argmin ds = Inr i \<and> first_min ds i"
proof -
  from assms obtain x rest where ds: "ds = x # rest" by (cases ds) auto
  have "first_min [x] 0" by (simp add: first_min_iff)
  from argmin_from_first_min [OF this, of x 1 rest] show ?thesis
    by (simp add: ds argmin_def)
qed

lemma abs_diff1_single: "abs_diff1 [a] [b] = \<bar>a - b\<bar>"
  by (simp add: abs_diff1_def)

lemma match_face_first_min:
  assumes "first_min (face_distance norm_diff (known_face_encodings s) q) i"
    and "length (known_face_names s) = length (known_face_encodings s)"
  shows "match_face norm_diff now q s =
           (if face_distance norm_diff (known_face_encodings s) q ! i \<le> tolerance
            then Inr (known_face_names s ! i, snd (mark_attendance now (known_face_names s ! i) s))
            else Inr (''Unknown'', s))"
proof -
  let ?ds = "face_distance norm_diff (known_face_encodings s) q"
  from assms(1) have i: "i < length ?ds" by (simp add: first_min_iff)
  then have ne: "?ds \<noteq> []" by auto
  from argmin_first_min [OF ne] first_min_unique [OF assms(1)] have am: "argmin ?ds = Inr i" by auto
  have len: "length ?ds = length (known_face_encodings s)" by (simp add: face_distance_def)
  have m: "index (compare_faces norm_diff (known_face_encodings s) q tolerance) i = Inr (?ds ! i \<le> tolerance)"
    using i by (simp add: index_def compare_faces_def)
  have n: "index (known_face_names s) i = Inr (known_face_names s ! i)"
    using i len assms(2) by (simp add: index_def)
  show ?thesis using ne am m n by (simp add: match_face_def Let_def)
qed

text \<open>
  Claim C3, as the code has it. The distances are the numbers the library
  computes, \<open>norm_diff e q\<close>, rounded as they are. For a non-empty set of
  enrolled descriptors (and as many names as descriptors, which the program
  maintains) there is a first index of least computed distance to the query, and
  \<open>match_face\<close> decides by that index alone: when the distance there is at most
  the tolerance \<open>0.6\<close> it returns the name at that index and marks attendance
  for it, otherwise it returns Unknown and touches nothing. An enrolled
  descriptor whose computed distance is greater than that of another one is
  never the selected one.
\<close>

theorem match_face_nearest:
  assumes "known_face_encodings s \<noteq> []"
    and "length (known_face_names s) = length (known_face_encodings s)"
  shows "(\<exists>i. first_min (face_distance norm_diff (known_face_encodings s) q) i) \<and>
         (\<forall>i. first_min (face_distance norm_diff (known_face_encodings s) q) i \<longrightarrow>
            match_face norm_diff now q s =
              (if norm_diff (known_face_encodings s ! i) q \<le> tolerance
               then Inr (known_face_names s ! i, snd (mark_attendance now (known_face_names s ! i) s))
               else Inr (''Unknown'', s)) \<and>
            (\<forall>a b. a < length (known_face_encodings s) \<and> b < length (known_face_encodings s) \<and>
                   norm_diff (known_face_encodings s ! a) q < norm_diff (known_face_encodings s ! b) q
                   \<longrightarrow> i \<noteq> b))"
proof -
  let ?ds = "face_distance norm_diff (known_face_encodings s) q"
  have nth: "?ds ! j = norm_diff (known_face_encodings s ! j) q" if "j < length (known_face_encodings s)" for j
    using that by (simp add: face_distance_def)
  have len: "length ?ds = length (known_face_encodings s)" by (simp add: face_distance_def)
  from assms(1) have "?ds \<noteq> []" by (simp add: face_distance_def)
  from argmin_first_min [OF this] have ex: "\<exists>i. first_min ?ds i" by blast
  have main: "match_face norm_diff now q s =
              (if norm_diff (known_face_encodings s ! i) q \<le> tolerance
               then Inr (known_face_names s ! i, snd (mark_attendance now (known_face_names s ! i) s))
               else Inr (''Unknown'', s))" if "first_min ?ds i" for i
    using match_face_first_min [OF that assms(2), of now] that nth [of i] len
    by (simp add: first_min_iff)
  have never: "i \<noteq> b" if "first_min ?ds i" "a < length (known_face_encodings s)"
    "b < length (known_face_encodings s)"
    "norm_diff (known_face_encodings s ! a) q < norm_diff (known_face_encodings s ! b) q" for i a b
  proof
    assume "i = b"
    with that(1) that(2) len have "?ds ! b \<le> ?ds ! a" by (simp add: first_min_iff)
    with nth that show False by simp
  qed
  from ex main never show ?thesis by blast
qed

lemma dist_three: "face_distance abs_diff1 (known_face_encodings store_three) [0] = [3 / 10, 5 / 10, 1 / 10]"
  by (simp add: store_three_def face_distance_def abs_diff1_single)

theorem match_face_nearest_witness:
  "known_face_encodings store_three \<noteq> [] \<and>
   length (known_face_names store_three) = length (known_face_encodings store_three) \<and>
   first_min (face_distance abs_diff1 (known_face_encodings store_three) [0]) 2 \<and>
   match_face abs_diff1 clock1 [0] store_three = Inr (''C'', snd (mark_attendance clock1 ''C'' store_three))"
proof -
  have h1: "known_face_encodings store_three \<noteq> []" by (simp add: store_three_def)
  have h2: "length (known_face_names store_three) = length (known_face_encodings store_three)"
    by (simp add: store_three_def)
  have h3: "first_min (face_distance abs_diff1 (known_face_encodings store_three) [0]) 2"
    unfolding dist_three by (simp add: first_min_def upt_rec)
  have h4: "abs_diff1 (known_face_encodings store_three ! 2) [0] \<le> tolerance"
    by (simp add: store_three_def abs_diff1_single tolerance_def)
  have h5: "known_face_names store_three ! 2 = ''C''" by (simp add: store_three_def)
  have "match_face abs_diff1 clock1 [0] store_three = Inr (''C'', snd (mark_attendance clock1 ''C'' store_three))"
    using match_face_nearest [OF h1 h2, of abs_diff1 "[0]" clock1] h3 h4 h5 by simp
  with h1 h2 h3 show ?thesis by blast
qed

text \<open>
  C3 as stated fails twice. A distance equal to the tolerance is not below it,
  and the match is accepted. And with A at distance 0.3, B at 0.5 and a third
  descriptor C at 0.1, A and B are both below the tolerance and A is closer than
  B, but the matcher returns C, not A.
\<close>

theorem match_face_counterexample:
  "abs_diff1 (known_face_encodings store_edge ! 0) [0] = tolerance \<and>
   match_face abs_diff1 clock1 [0] store_edge = Inr (''A'', snd (mark_attendance clock1 ''A'' store_edge)) \<and>
   abs_diff1 (known_face_encodings store_three ! 0) [0] < abs_diff1 (known_face_encodings store_three ! 1) [0] \<and>
   abs_diff1 (known_face_encodings store_three ! 0) [0] < tolerance \<and>
   abs_diff1 (known_face_encodings store_three ! 1) [0] < tolerance \<and>
   match_face abs_diff1 clock1 [0] store_three \<noteq> Inr (''A'', snd (mark_attendance clock1 ''A'' store_three))"
proof -
  have e1: "abs_diff1 (known_face_encodings store_edge ! 0) [0] = tolerance"
    by (simp add: store_edge_def abs_diff1_single tolerance_def)
  have fm: "first_min (face_distance abs_diff1 (known_face_encodings store_edge) [0]) 0"
    by (simp add: store_edge_def face_distance_def first_min_def)
  have e2: "match_face abs_diff1 clock1 [0] store_edge = Inr (''A'', snd (mark_attendance clock1 ''A'' store_edge))"
    using match_face_first_min [OF fm, of clock1] e1
    by (simp add: store_edge_def face_distance_def)
  have e3: "abs_diff1 (known_face_encodings store_three ! 0) [0] < abs_diff1 (known_face_encodings store_three ! 1) [0]"
    "abs_diff1 (known_face_encodings store_three ! 0) [0] < tolerance"
    "abs_diff1 (known_face_encodings store_three ! 1) [0] < tolerance"
    by (simp_all add: store_three_def abs_diff1_single tolerance_def)
  have fm3: "first_min (face_distance abs_diff1 (known_face_encodings store_three) [0]) 2"
    unfolding dist_three by (simp add: first_min_def upt_rec)
  have "match_face abs_diff1 clock1 [0] store_three = Inr (''C'', snd (mark_attendance clock1 ''C'' store_three))"
    using match_face_first_min [OF fm3, of clock1]
    by (simp add: store_three_def face_distance_def abs_diff1_single tolerance_def)
  then have e4: "match_face abs_diff1 clock1 [0] store_three \<noteq> Inr (''A'', snd (mark_attendance clock1 ''A'' store_three))"
    by simp
  from e1 e2 e3 e4 show ?thesis by blast
qed

text \<open>
  Claim C4. With no enrolled descriptor the decision for a face is Unknown: it
  is a value and not an error, and the state (ledger, outputs, store) is the one
  before.
\<close>

theorem match_face_empty_store:
  "known_face_encodings s = [] \<Longrightarrow> match_face norm_diff now q s = Inr (''Unknown'', s)"
  by (simp add: match_face_def face_distance_def Let_def)

theorem match_face_empty_store_witness:
  "known_face_encodings store_none = [] \<and>
   match_face abs_diff1 clock1 [1, 2] store_none = Inr (''Unknown'', store_none)"
proof -
  have h: "known_face_encodings store_none = []" by (simp add: store_none_def)
  from match_face_empty_store [OF h] h show ?thesis by blast
qed

section \<open>Properties of training and enrollment\<close>

subsection \<open>What train_model computes\<close>

lemma dict_set_fresh: "k \<notin> fst ` set d \<Longrightarrow> dict_set d k v = d @ [(k, v)]"
  by (induction d) auto

lemma length_label_from: "length (label_from k xs) = length xs"
  by (induction xs arbitrary: k) auto

lemma length_table_of: "length (table_of k imgs) = length imgs"
  by (simp add: table_of_def length_label_from)

lemma image_files_Cons:
  "image_files ((f, img) # dir) = (if is_image_file f then (f, img) # image_files dir else image_files dir)"
  by (simp add: image_files_def)

lemma table_of_Nil: "table_of k [] = []"
  by (simp add: table_of_def)

lemma table_of_Cons: "table_of k ((f, img) # imgs) = (k, splitext_root f) # table_of (k + 1) imgs"
  by (simp add: table_of_def)

lemma samples_of_Nil: "samples_of detect crop k [] = []"
  by (simp add: samples_of_def)

lemma samples_of_Cons:
  "samples_of detect crop k ((f, img) # imgs) =
     map (\<lambda>face. (face, k)) (first_face detect crop img) @ samples_of detect crop (k + 1) imgs"
  by (simp add: samples_of_def)

lemma processed_of_Nil: "processed_of detect [] = []"
  by (simp add: processed_of_def)

lemma processed_of_Cons:
  "processed_of detect ((f, img) # imgs) =
     (if detect img = [] then [] else [Processed (splitext_root f)]) @ processed_of detect imgs"
  by (simp add: processed_of_def)

lemma train_scan_eq:
  assumes "\<forall>l\<in>fst ` set m. l < k"
  shows "train_scan detect crop dir (faces, ids, k, m, out) =
           (faces @ map fst (samples_of detect crop k (image_files dir)),
            ids @ map snd (samples_of detect crop k (image_files dir)),
            k + int (length (image_files dir)),
            m @ table_of k (image_files dir),
            out @ processed_of detect (image_files dir))"
  using assms
proof (induction dir arbitrary: faces ids k m out)
  case Nil
  then show ?case
    by (simp add: image_files_def samples_of_Nil table_of_Nil processed_of_Nil)
next
  case (Cons entry dir)
  obtain filename img where entry: "entry = (filename, img)" by (cases entry)
  show ?case
  proof (cases "is_image_file filename")
    case False
    with Cons show ?thesis by (simp add: entry image_files_Cons)
  next
    case True
    from Cons.prems have fresh: "k \<notin> fst ` set m" by auto
    have keys: "\<forall>l\<in>fst ` set (m @ [(k, splitext_root filename)]). l < k + 1"
      using Cons.prems by auto
    show ?thesis
    proof (cases "detect img")
      case Nil
      with True fresh Cons.IH [OF keys] show ?thesis
        by (simp add: entry image_files_Cons dict_set_fresh samples_of_Cons table_of_Cons
            processed_of_Cons first_face_def Let_def add.assoc)
    next
      case (Cons r rs)
      with True fresh Cons.IH [OF keys] show ?thesis
        by (simp add: entry image_files_Cons dict_set_fresh samples_of_Cons table_of_Cons
            processed_of_Cons first_face_def Let_def add.assoc)
    qed
  qed
qed

lemma train_model_eq:
  "train_model detect crop s =
     (let imgs = image_files (database s);
          t = table_of 1 imgs;
          smp = samples_of detect crop 1 imgs;
          out = console s @ [TrainingModel] @ processed_of detect imgs
      in if smp \<noteq> [] then
           s\<lparr>employee_ids := t, employee_ids_file := Some t, console := out,
             recognizer := Some smp, recognizer_file := Some smp,
             console := out @ [ModelTrained (length smp) (length imgs)]\<rparr>
         else s\<lparr>employee_ids := t, employee_ids_file := Some t, console := out,
                console := out @ [NoFacesFound]\<rparr>)"
proof -
  have "\<forall>l\<in>fst ` set ([] :: (int \<times> string) list). l < 1" by simp
  from train_scan_eq [OF this, of detect crop "database s" "[]" "[]" "console s @ [TrainingModel]"]
  show ?thesis
    by (simp add: train_model_def Let_def zip_map_fst_snd length_table_of)
qed

lemma label_from_nth: "i < length xs \<Longrightarrow> label_from k xs ! i = (k + int i, xs ! i)"
proof (induction xs arbitrary: k i)
  case Nil
  then show ?case by simp
next
  case (Cons x xs)
  then show ?case by (cases i) (auto simp: algebra_simps)
qed

lemma table_of_nth:
  "i < length imgs \<Longrightarrow> table_of k imgs ! i = (k + int i, splitext_root (fst (imgs ! i)))"
  by (simp add: table_of_def length_label_from label_from_nth split: prod.splits)

lemma label_from_keys: "fst ` set (label_from k xs) = {k ..< k + int (length xs)}"
proof (induction xs arbitrary: k)
  case Nil
  then show ?case by simp
next
  case (Cons x xs)
  have "{k ..< k + int (length (x # xs))} = insert k {k + 1 ..< k + 1 + int (length xs)}"
    by auto
  with Cons show ?case by simp
qed

lemma table_of_keys: "fst ` set (table_of k imgs) = {k ..< k + int (length imgs)}"
proof -
  have "fst ` set (table_of k imgs) = fst ` set (label_from k imgs)"
    by (force simp: table_of_def)
  then show ?thesis by (simp add: label_from_keys)
qed

lemma samples_of_labels: "snd ` set (samples_of detect crop k imgs) \<subseteq> {k ..< k + int (length imgs)}"
proof -
  have "snd ` set (samples_of detect crop k imgs) \<subseteq> fst ` set (label_from k imgs)"
    by (force simp: samples_of_def)
  then show ?thesis by (simp add: label_from_keys)
qed

lemma samples_of_label:
  "i < length imgs \<Longrightarrow>
   filter (\<lambda>(face, l). l = k + int i) (samples_of detect crop k imgs) =
     map (\<lambda>face. (face, k + int i)) (first_face detect crop (snd (imgs ! i)))"
proof (induction imgs arbitrary: k i)
  case Nil
  then show ?case by simp
next
  case (Cons x xs)
  obtain f img where x: "x = (f, img)" by (cases x)
  show ?case
  proof (cases i)
    case 0
    have "filter (\<lambda>(face, l). l = k) (samples_of detect crop (k + 1) xs) = []"
      using samples_of_labels [of detect crop "k + 1" xs] by (auto simp: filter_empty_conv)
    moreover have "filter (\<lambda>(face, l). l = k) (map (\<lambda>face. (face, k)) (first_face detect crop img))
        = map (\<lambda>face. (face, k)) (first_face detect crop img)"
      by (simp add: filter_map comp_def)
    ultimately show ?thesis by (simp add: samples_of_Cons 0 x)
  next
    case (Suc j)
    with Cons.prems have j: "j < length xs" by simp
    have "filter (\<lambda>(face, l). l = k + int i) (map (\<lambda>face. (face, k)) (first_face detect crop img)) = []"
      by (simp add: Suc filter_map comp_def)
    moreover have "k + int i = k + 1 + int j" by (simp add: Suc)
    ultimately show ?thesis using Cons.IH [OF j, of "k + 1"]
      by (simp add: samples_of_Cons Suc x add.assoc)
  qed
qed

subsection \<open>Enrollment with no face in the frame\<close>

text \<open>
  Claim C5 asks that an enrollment attempt with no detectable face leaves the
  persisted image files unchanged. In main.py the frame is written to
  \<^verbatim>\<open>alice.jpg\<close> before the face check and removed after it failed, so the
  image that an enrolled employee alice had there is gone.
\<close>

theorem add_employee_faceless_removes_prior_image:
  "faces_of 0 = [] \<and> database fra_alice = [(''alice.jpg'', 1)] \<and>
   add_employee_pass place_end faces_of ''alice'' (True, 0, ord_c) fra_alice =
     Inr (Continue (fra_alice\<lparr>console := [NoFaceDetected], database := []\<rparr>))"
  by (simp add: faces_of_def fra_alice_def add_employee_pass_def imwrite_def os_remove_def Let_def)

text \<open>
  In main2.py the claim holds: the frame is checked before it is written, and a
  frame without face changes nothing but the console.
\<close>

lemma add_employee2_pass_no_face:
  "detect frame = [] \<Longrightarrow>
   add_employee2_pass place detect crop name (frame, ord_c) s =
     Continue (s\<lparr>console := console s @ [NoFaceDetected]\<rparr>)"
  by (simp add: add_employee2_pass_def Let_def)

subsection \<open>Enrolling a name again\<close>

text \<open>
  Claim C6 asks that a name has at most one template in the store, also after it
  is enrolled again. In main.py, enrolling alice again overwrites
  \<^verbatim>\<open>alice.jpg\<close>, so the directory holds one image of her, but the new
  descriptor and the name are appended to the lists in memory: the store then
  holds two templates under the name alice, the old one and the new one.
\<close>

theorem add_employee_again_duplicates:
  "known_face_names fra_alice = [''alice''] \<and>
   known_face_encodings fra_alice = [[1 / 10]] \<and>
   add_employee_pass place_end faces_of ''alice'' (True, 2, ord_c) fra_alice =
     Inr (Break (fra_alice\<lparr>database := [(''alice.jpg'', 2)],
                           known_face_encodings := [[1 / 10], [2 / 10]],
                           known_face_names := [''alice'', ''alice''],
                           console := [SuccessfullyAdded ''alice'']\<rparr>))"
  by (simp add: faces_of_def fra_alice_def add_employee_pass_def imwrite_def Let_def)

text \<open>
  The sibling main2.py rebuilds its table from the directory: after alice is
  enrolled again there is one row for her.
\<close>

lemma add_employee2_again_one_row:
  "employee_ids lfa_alice = [(1, ''alice'')] \<and>
   (case add_employee2_pass place_end detect_of crop_of ''alice'' (2, ord_c) lfa_alice of
      Break s' \<Rightarrow> database s' = [(''alice.jpg'', 2)] \<and> employee_ids s' = [(1, ''alice'')] \<and>
                  recognizer s' = Some [((2, (0, 0, 2, 2)), 1)]
    | Continue _ \<Rightarrow> False)"
  by code_simp

subsection \<open>Labels, samples and messages of train_model\<close>

text \<open>
  Claim C7, as the code has it. \<open>train_model\<close> gives the image files of the
  directory the labels 1, 2, 3, ... in listing order, and the table from label to
  name (in memory and in the file) holds a row for every one of them, with or
  without a detectable face. An image contributes at most one training sample,
  the crop of its first detected face under its label, and none when no face is
  detected. When there is at least one sample the recognizer is trained on
  exactly these samples and saved. Every label of a sample is a key of the
  table. The messages are one \<open>Processed\<close> per image with a face and a closing
  message; no warning is printed.
\<close>

theorem train_model_labels:
  fixes s :: "('img, 'face, 'z) lfa_scheme"
  assumes "imgs = image_files (database s)" and "smp = samples_of detect crop 1 imgs"
    and "s' = train_model detect crop s"
  shows "employee_ids s' = table_of 1 imgs \<and> employee_ids_file s' = Some (table_of 1 imgs) \<and>
         length (employee_ids s') = length imgs \<and>
         (\<forall>i<length imgs. employee_ids s' ! i = (1 + int i, splitext_root (fst (imgs ! i)))) \<and>
         (\<forall>i<length imgs.
            filter (\<lambda>(face, l). l = 1 + int i) smp =
              (case detect (snd (imgs ! i)) of [] \<Rightarrow> []
               | r # _ \<Rightarrow> [(crop (snd (imgs ! i)) r, 1 + int i)])) \<and>
         (smp \<noteq> [] \<longrightarrow> recognizer s' = Some smp \<and> recognizer_file s' = Some smp) \<and>
         snd ` set smp \<subseteq> fst ` set (employee_ids s') \<and>
         console s' = console s @ [TrainingModel] @ processed_of detect imgs @
                        [if smp \<noteq> [] then ModelTrained (length smp) (length imgs) else NoFacesFound] \<and>
         (\<forall>f. WarningNoFace f \<in> set (console s') \<longrightarrow> WarningNoFace f \<in> set (console s))"
proof -
  have ids: "employee_ids s' = table_of 1 imgs" "employee_ids_file s' = Some (table_of 1 imgs)"
    unfolding assms by (simp_all add: train_model_eq Let_def)
  have rec: "recognizer s' = Some smp \<and> recognizer_file s' = Some smp" if "smp \<noteq> []"
    using that unfolding assms by (simp add: train_model_eq Let_def)
  have out: "console s' = console s @ [TrainingModel] @ processed_of detect imgs @
                        [if smp \<noteq> [] then ModelTrained (length smp) (length imgs) else NoFacesFound]"
    unfolding assms by (simp add: train_model_eq Let_def)
  have nth: "employee_ids s' ! i = (1 + int i, splitext_root (fst (imgs ! i)))" if "i < length imgs" for i
    using that by (simp add: ids table_of_nth)
  have one: "filter (\<lambda>(face, l). l = 1 + int i) smp =
              (case detect (snd (imgs ! i)) of [] \<Rightarrow> []
               | r # _ \<Rightarrow> [(crop (snd (imgs ! i)) r, 1 + int i)])" if "i < length imgs" for i
    using samples_of_label [OF that, of 1 detect crop]
    by (simp add: assms(2) first_face_def split: list.splits)
  have sub: "snd ` set smp \<subseteq> fst ` set (employee_ids s')"
    using samples_of_labels [of detect crop 1 imgs] by (simp add: ids table_of_keys assms(2))
  have "WarningNoFace f \<notin> set (processed_of detect imgs)" for f
    by (auto simp: processed_of_def split: if_splits)
  then have warn: "WarningNoFace f \<in> set (console s') \<longrightarrow> WarningNoFace f \<in> set (console s)" for f
    by (auto simp: out)
  from ids rec out nth one sub warn show ?thesis
    by (simp add: length_table_of)
qed

text \<open>
  C7 as stated fails on a directory with alice.jpg (a face) and bob.png (no
  face): bob gets label 2 and a row of the table, in memory and in the file, and
  nothing is printed about the missing face.
\<close>

theorem train_model_labels_counterexample:
  "image_files (database lfa_two) = [(''alice.jpg'', 1), (''bob.png'', 0)] \<and>
   detect_of 0 = [] \<and>
   employee_ids (train_model detect_of crop_of lfa_two) = [(1, ''alice''), (2, ''bob'')] \<and>
   employee_ids_file (train_model detect_of crop_of lfa_two) = Some [(1, ''alice''), (2, ''bob'')] \<and>
   recognizer (train_model detect_of crop_of lfa_two) = Some [((1, (0, 0, 1, 1)), 1)] \<and>
   console (train_model detect_of crop_of lfa_two) = [TrainingModel, Processed ''alice'', ModelTrained 1 2]"
  by code_simp

theorem train_model_labels_witness:
  "employee_ids (train_model detect_of crop_of lfa_two) = table_of 1 (image_files (database lfa_two)) \<and>
   table_of 1 (image_files (database lfa_two)) = [(1, ''alice''), (2, ''bob'')] \<and>
   samples_of detect_of crop_of 1 (image_files (database lfa_two)) = [((1, (0, 0, 1, 1)), 1)]"
proof -
  have h1: "table_of 1 (image_files (database lfa_two)) = [(1, ''alice''), (2, ''bob'')]" by code_simp
  have h2: "samples_of detect_of crop_of 1 (image_files (database lfa_two)) = [((1, (0, 0, 1, 1)), 1)]"
    by code_simp
  note T = train_model_labels [where s = lfa_two and detect = detect_of and crop = crop_of,
      OF refl refl refl]
  from T [THEN conjunct1] h1 h2 show ?thesis by (intro conjI)
qed

section \<open>Properties of the recognition loop (main2.py)\<close>

lemma recognizer_after_mark [simp]:
  "recognizer (snd (mark_attendance now name s)) = recognizer s"
  "employee_ids (snd (mark_attendance now name s)) = employee_ids s"
  by (simp_all add: mark_attendance_def success_indication_def Let_def)

text \<open>
  Claim C9. When the recognizer was never trained, \<open>predict\<close> fails, the
  \<^verbatim>\<open>except\<close> branch prints the error and the loop goes on with the next
  face: nothing is marked, no name is drawn, and after a frame with \<open>n\<close> faces
  the state differs from the one before by \<open>n\<close> printed errors only.
\<close>

theorem recognize_face_untrained:
  fixes s :: "('img, 'face, 'z) lfa_scheme"
  assumes "recognizer s = None"
  shows "recognize_face predict now face_img s = (None, s\<lparr>console := console s @ [RecognitionError]\<rparr>) \<and>
         recognize_faces predict now face_imgs s =
           s\<lparr>console := console s @ replicate (length face_imgs) RecognitionError\<rparr>"
proof -
  have one: "recognize_face predict now f t = (None, t\<lparr>console := console t @ [RecognitionError]\<rparr>)"
    if "recognizer t = None" for t :: "('img, 'face, 'z) lfa_scheme" and f
    using that by (simp add: recognize_face_def lbph_predict_def)
  have "recognize_faces predict now face_imgs t =
           t\<lparr>console := console t @ replicate (length face_imgs) RecognitionError\<rparr>"
    if "recognizer t = None" for t :: "('img, 'face, 'z) lfa_scheme"
    using that
  proof (induction face_imgs arbitrary: t)
    case Nil
    then show ?case by simp
  next
    case (Cons f fs)
    have "recognizer (t\<lparr>console := console t @ [RecognitionError]\<rparr>) = None"
      using Cons.prems by simp
    from Cons.IH [OF this] one [OF Cons.prems] show ?case
      by (simp add: replicate_append_same)
  qed
  with one assms show ?thesis by blast
qed

theorem recognize_face_untrained_witness:
  "recognizer lfa_two = None \<and>
   recognize_face predict_first clock1 (1, (0, 0, 1, 1)) lfa_two =
     (None, lfa_two\<lparr>console := console lfa_two @ [RecognitionError]\<rparr>) \<and>
   recognize_faces predict_first clock1 [(1, (0, 0, 1, 1)), (2, (0, 0, 2, 2))] lfa_two =
     lfa_two\<lparr>console := console lfa_two @
       replicate (length [(1 :: nat, (0 :: nat, 0 :: nat, 1 :: nat, 1 :: nat)), (2, (0, 0, 2, 2))]) RecognitionError\<rparr>"
proof -
  have h: "recognizer lfa_two = None" by (simp add: lfa_two_def)
  from recognize_face_untrained [OF h] h show ?thesis by blast
qed

text \<open>
  Claim C10. When the predicted label has a confidence below 70 and is no key
  of \<open>employee_ids\<close>, the name is \<^verbatim>\<open>Unknown\<close> and \<open>mark_attendance\<close> is
  called with it. Unless the scan already finds \<^verbatim>\<open>Unknown\<close> with today's
  date, the text \<^verbatim>\<open>Unknown,date,time\<close> with its terminator is appended to the
  log; in a log that ended with a line terminator this is one more line, whose
  Name field is \<^verbatim>\<open>Unknown\<close> and whose Date field is today. Recognising the
  face again on the same date appends nothing more.
\<close>

theorem recognize_face_unknown_label:
  fixes s :: "('img, 'face, 'z) lfa_scheme"
  assumes "recognizer s = Some m" and "predict m face_img = (id_num, confidence)"
    and "confidence < 70" and "map_of (employee_ids s) id_num = None"
  shows "recognize_face predict now face_img s = (Some ''Unknown'', snd (mark_attendance now ''Unknown'' s)) \<and>
         (\<not> already_marked ''Unknown'' (strftime_date now) (attendance_log s) \<longrightarrow>
            attendance_log (snd (recognize_face predict now face_img s)) =
              Some ((case attendance_log s of None \<Rightarrow> [] | Some content \<Rightarrow> content) @
                    ''Unknown,'' @ strftime_date now @ '','' @ strftime_time now @ [CR, LF])) \<and>
         (\<forall>content. \<not> already_marked ''Unknown'' (strftime_date now) (attendance_log s) \<and>
              attendance_log s = Some content \<and> newline_terminated content \<longrightarrow>
            file_lines (the (attendance_log (snd (recognize_face predict now face_img s)))) =
              file_lines content @ [''Unknown,'' @ strftime_date now @ '','' @ strftime_time now @ [LF]]) \<and>
         records_name_date ''Unknown'' (strftime_date now)
           (''Unknown,'' @ strftime_date now @ '','' @ strftime_time now @ [LF]) \<and>
         (\<forall>now2. strftime_date now2 = strftime_date now \<longrightarrow>
            attendance_log (snd (recognize_face predict now2 face_img (snd (recognize_face predict now face_img s))))
              = attendance_log (snd (recognize_face predict now face_img s)))"
proof -
  have step: "recognize_face predict n face_img t = (Some ''Unknown'', snd (mark_attendance n ''Unknown'' t))"
    if "recognizer t = Some m" "employee_ids t = employee_ids s" for t :: "('img, 'face, 'z) lfa_scheme" and n
    using that assms(2-4) by (simp add: recognize_face_def lbph_predict_def dict_get_def Let_def)
  let ?s1 = "snd (mark_attendance now ''Unknown'' s)"
  let ?body = "''Unknown,'' @ strftime_date now @ '','' @ strftime_time now"
  have first: "recognize_face predict now face_img s = (Some ''Unknown'', ?s1)"
    using step [OF assms(1) refl] .
  have plain: "plain_name ''Unknown''" by (simp add: plain_name_def)
  have body: "row_body ''Unknown'' now now = ?body"
    by (simp add: row_body_def csv_field_def csv_special_def)
  have marked: "attendance_log ?s1 =
      Some ((case attendance_log s of None \<Rightarrow> [] | Some content \<Rightarrow> content) @ ?body @ [CR, LF])"
    if "\<not> already_marked ''Unknown'' (strftime_date now) (attendance_log s)"
  proof -
    have "attendance_log ?s1 = append_file (attendance_log s) (row_body ''Unknown'' now now @ [CR, LF])"
      using that by (simp add: mark_attendance_marked success_indication_def writerow_three row_body_def)
    then show ?thesis unfolding body by (simp add: append_file_def split: option.splits)
  qed
  have lines: "file_lines (the (attendance_log ?s1)) = file_lines content @ [?body @ [LF]]"
    if "\<not> already_marked ''Unknown'' (strftime_date now) (attendance_log s)"
      "attendance_log s = Some content" "newline_terminated content" for content
  proof -
    have "row_body ''Unknown'' now now \<noteq> []" by (simp add: row_body_def)
    from file_lines_terminated_row [OF row_body_no_newline [OF plain, of now now] this that(3)]
    have "file_lines (content @ ?body @ [CR, LF]) = file_lines content @ [?body @ [LF]]"
      unfolding body by simp
    with marked [OF that(1)] that(2) show ?thesis by simp
  qed
  have rec: "records_name_date ''Unknown'' (strftime_date now) (?body @ [LF])"
    using records_name_date_row [of "''Unknown''" now now] by simp
  have again: "attendance_log (snd (recognize_face predict now2 face_img ?s1)) = attendance_log ?s1"
    if "strftime_date now2 = strftime_date now" for now2
  proof -
    have "recognize_face predict now2 face_img ?s1 = (Some ''Unknown'', snd (mark_attendance now2 ''Unknown'' ?s1))"
      by (rule step) (simp_all add: assms(1))
    moreover have "already_marked ''Unknown'' (strftime_date now2) (attendance_log ?s1)"
      using already_marked_after_mark [OF plain, of now s] that by simp
    ultimately show ?thesis by (simp add: mark_attendance_already)
  qed
  have sndeq: "snd (recognize_face predict now face_img s) = ?s1" by (simp add: first)
  have c2: "\<not> already_marked ''Unknown'' (strftime_date now) (attendance_log s) \<longrightarrow>
            attendance_log (snd (recognize_face predict now face_img s)) =
              Some ((case attendance_log s of None \<Rightarrow> [] | Some content \<Rightarrow> content) @
                    ''Unknown,'' @ strftime_date now @ '','' @ strftime_time now @ [CR, LF])"
    unfolding sndeq using marked by simp
  have c3: "\<forall>content. \<not> already_marked ''Unknown'' (strftime_date now) (attendance_log s) \<and>
              attendance_log s = Some content \<and> newline_terminated content \<longrightarrow>
            file_lines (the (attendance_log (snd (recognize_face predict now face_img s)))) =
              file_lines content @ [''Unknown,'' @ strftime_date now @ '','' @ strftime_time now @ [LF]]"
  proof (intro allI impI)
    fix content
    assume a: "\<not> already_marked ''Unknown'' (strftime_date now) (attendance_log s) \<and>
              attendance_log s = Some content \<and> newline_terminated content"
    then have a1: "\<not> already_marked ''Unknown'' (strftime_date now) (attendance_log s)"
      and a2: "attendance_log s = Some content" and a3: "newline_terminated content"
      by blast+
    have "file_lines (the (attendance_log ?s1)) = file_lines content @ [?body @ [LF]]"
      by (rule lines [OF a1 a2 a3])
    then show "file_lines (the (attendance_log (snd (recognize_face predict now face_img s)))) =
              file_lines content @ [''Unknown,'' @ strftime_date now @ '','' @ strftime_time now @ [LF]]"
      unfolding sndeq by simp
  qed
  have c4: "records_name_date ''Unknown'' (strftime_date now)
           (''Unknown,'' @ strftime_date now @ '','' @ strftime_time now @ [LF])"
    using rec by simp
  have c5: "\<forall>now2. strftime_date now2 = strftime_date now \<longrightarrow>
            attendance_log (snd (recognize_face predict now2 face_img (snd (recognize_face predict now face_img s))))
              = attendance_log (snd (recognize_face predict now face_img s))"
    unfolding sndeq using again by blast
  from first c2 c3 c4 c5 show ?thesis by (intro conjI)
qed

theorem recognize_face_unknown_label_witness:
  "recognizer lfa_stale = Some [((1, (0, 0, 1, 1)), 1)] \<and>
   predict_first [((1, (0, 0, 1, 1)), 1)] (3, (0, 0, 3, 3)) = (1, 50) \<and> (50 :: real) < 70 \<and>
   map_of (employee_ids lfa_stale) 1 = None \<and>
   \<not> already_marked ''Unknown'' (strftime_date clock1) (attendance_log lfa_stale) \<and>
   attendance_log lfa_stale = Some (''Name,Date,Time'' @ [CR, LF]) \<and>
   attendance_log (snd (recognize_face predict_first clock1 (3, (0, 0, 3, 3)) lfa_stale)) =
     Some (''Name,Date,Time'' @ [CR, LF] @ ''Unknown,2024-01-01,10:05:07'' @ [CR, LF])"
proof -
  have h1: "recognizer lfa_stale = Some [((1, (0, 0, 1, 1)), 1)]" by (simp add: lfa_stale_def)
  have h2: "predict_first [((1, (0, 0, 1, 1)), 1)] (3, (0, 0, 3, 3)) = (1, 50)" by (simp add: predict_first_def)
  have h3: "(50 :: real) < 70" by simp
  have h4: "map_of (employee_ids lfa_stale) 1 = None" by (simp add: lfa_stale_def)
  have h5: "\<not> already_marked ''Unknown'' (strftime_date clock1) (attendance_log lfa_stale)" by code_simp
  have h6: "attendance_log lfa_stale = Some (''Name,Date,Time'' @ [CR, LF])" by code_simp
  have h7: "strftime_date clock1 = ''2024-01-01''" "strftime_time clock1 = ''10:05:07''" by code_simp+
  note T = recognize_face_unknown_label [where s = lfa_stale and m = "[((1, (0, 0, 1, 1)), 1)]"
      and predict = predict_first and face_img = "(3, (0, 0, 3, 3))" and id_num = 1
      and confidence = 50 and now = clock1, OF h1 h2 h3 h4]
  from T [THEN conjunct2, THEN conjunct1] h5
  have "attendance_log (snd (recognize_face predict_first clock1 (3, (0, 0, 3, 3)) lfa_stale)) =
     Some ((case attendance_log lfa_stale of None \<Rightarrow> [] | Some content \<Rightarrow> content) @
           ''Unknown,'' @ strftime_date clock1 @ '','' @ strftime_time clock1 @ [CR, LF])"
    by blast
  then have "attendance_log (snd (recognize_face predict_first clock1 (3, (0, 0, 3, 3)) lfa_stale)) =
     Some (''Name,Date,Time'' @ [CR, LF] @ ''Unknown,2024-01-01,10:05:07'' @ [CR, LF])"
    by (simp add: h6 h7)
  with h1 h2 h3 h4 h5 h6 show ?thesis by blast
qed

end
